theory Spec2Isabelle
  imports Complex_Main
begin

section \<open>Numbers\<close>

text \<open>
  A JavaScript number is an IEEE 754 double. The finite doubles are modelled as the real
  numbers they denote (the two zeros are one number), and every value that is not finite
  (\<open>NaN\<close> and the infinities) as \<open>None\<close>.

  \<open>fl\<close> rounds a real number to the nearest double, a tie going to the double with the
  even significand: a double has 53 significant bits, so that a number of binary exponent
  \<open>p\<close> is rounded to a multiple of \<open>2 ^ (p - 52)\<close>, and to a multiple of \<open>2 ^ -1074\<close> in
  the subnormal range. A result of magnitude \<open>2 ^ 1024\<close> or more is an infinity.
\<close>

definition binExp :: "real \<Rightarrow> int" where
  "binExp x = \<lfloor>log 2 \<bar>x\<bar>\<rfloor>"

definition ulpExp :: "real \<Rightarrow> int" where
  "ulpExp x = max (binExp x - 52) (- 1074)"

definition roundHalfEven :: "real \<Rightarrow> int" where
  "roundHalfEven q =
     (let f = \<lfloor>q\<rfloor>; r = q - of_int f
      in if r < 1 / 2 then f
         else if 1 / 2 < r then f + 1
         else if even f then f else f + 1)"

definition fl :: "real \<Rightarrow> real option" where
  "fl x =
     (if x = 0 then Some 0
      else (let e = ulpExp x;
                r = of_int (roundHalfEven (x / 2 powi e)) * 2 powi e
            in if 2 powi 1024 \<le> \<bar>r\<bar> then None else Some r))"

text \<open>A real number is a double when rounding leaves it as it is.\<close>

definition isDouble :: "real \<Rightarrow> bool" where
  "isDouble x = (fl x = Some x)"

text \<open>
  The arithmetic of JavaScript on finite doubles: the exact result, rounded. A division
  by zero gives an infinity or \<open>NaN\<close>.
\<close>

definition jsAdd :: "real \<Rightarrow> real \<Rightarrow> real option" where
  "jsAdd a b = fl (a + b)"

definition jsSub :: "real \<Rightarrow> real \<Rightarrow> real option" where
  "jsSub a b = fl (a - b)"

definition jsMul :: "real \<Rightarrow> real \<Rightarrow> real option" where
  "jsMul a b = fl (a * b)"

definition jsDiv :: "real \<Rightarrow> real \<Rightarrow> real option" where
  "jsDiv a b = (if b = 0 then None else fl (a / b))"

text \<open>
  \<open>Math.trunc\<close>, and the remainder \<open>a % b\<close> of two doubles, which is
  \<open>a - b * trunc (a / b)\<close> taken exactly: the remainder of two doubles is a double, so
  that \<open>%\<close> does not round.
\<close>

definition trunc :: "real \<Rightarrow> int" where
  "trunc r = (if 0 \<le> r then \<lfloor>r\<rfloor> else \<lceil>r\<rceil>)"

definition fmod :: "real \<Rightarrow> real \<Rightarrow> real" where
  "fmod a b = a - b * of_int (trunc (a / b))"

text \<open>
  A point is the object \<open>{ x, y }\<close> of the gallery; its fields are named \<open>px\<close> and
  \<open>py\<close> here.
\<close>

record point =
  px :: real
  py :: real

section \<open>Infinite gallery: pinned zoom\<close>

text \<open>
  \<^verbatim>\<open>
  function computePinnedOffset(prevSize, nextSize, pivot, prevOffset) {
      const worldX = (pivot.x - prevOffset.x) / prevSize
      const worldY = (pivot.y - prevOffset.y) / prevSize
      return {
          x: pivot.x - worldX * nextSize,
          y: pivot.y - worldY * nextSize,
      }
  }
  \<close>
  One coordinate of the result: a subtraction, a division, a multiplication and a
  subtraction, each rounded. A value that is not finite stays not finite through the
  operations that follow it.
\<close>

definition pinnedCoord :: "real \<Rightarrow> real \<Rightarrow> real \<Rightarrow> real \<Rightarrow> real option" where
  "pinnedCoord prevSize nextSize pivot prevOffset =
     (case jsSub pivot prevOffset of
        None \<Rightarrow> None
      | Some d \<Rightarrow>
          (case jsDiv d prevSize of
             None \<Rightarrow> None
           | Some world \<Rightarrow>
               (case jsMul world nextSize of
                  None \<Rightarrow> None
                | Some m \<Rightarrow> jsSub pivot m)))"

text \<open>The object returned: each field a double, or not finite.\<close>

record pinnedOffset =
  newX :: "real option"
  newY :: "real option"

definition computePinnedOffset :: "real \<Rightarrow> real \<Rightarrow> point \<Rightarrow> point \<Rightarrow> pinnedOffset" where
  "computePinnedOffset prevSize nextSize pivot prevOffset =
     \<lparr>newX = pinnedCoord prevSize nextSize (px pivot) (px prevOffset),
      newY = pinnedCoord prevSize nextSize (py pivot) (py prevOffset)\<rparr>"

text \<open>
  The world coordinate (in cells) of a screen coordinate under an offset and a cell size:
  the real number \<open>(pivot - offset) / size\<close>. There is none at size 0.
\<close>

definition worldCoord :: "real \<Rightarrow> real \<Rightarrow> real \<Rightarrow> real option" where
  "worldCoord sz pivot off = (if sz = 0 then None else Some ((pivot - off) / sz))"

text \<open>
  The pin is exact in a coordinate when the offset returned is finite and puts the same
  world coordinate under the pivot at the next size as the previous offset did at the
  previous size; it is exact when it is so in both coordinates.
\<close>

definition pinnedExactCoord :: "real \<Rightarrow> real \<Rightarrow> real \<Rightarrow> real \<Rightarrow> bool" where
  "pinnedExactCoord prevSize nextSize pivot prevOffset =
     (case pinnedCoord prevSize nextSize pivot prevOffset of
        None \<Rightarrow> False
      | Some newOffset \<Rightarrow>
          worldCoord nextSize pivot newOffset = worldCoord prevSize pivot prevOffset)"

definition pinnedExact :: "real \<Rightarrow> real \<Rightarrow> point \<Rightarrow> point \<Rightarrow> bool" where
  "pinnedExact prevSize nextSize pivot prevOffset =
     (pinnedExactCoord prevSize nextSize (px pivot) (px prevOffset)
      \<and> pinnedExactCoord prevSize nextSize (py pivot) (py prevOffset))"

text \<open>
  No operation of \<open>computePinnedOffset\<close> rounds in a coordinate when the four exact
  results are doubles.
\<close>

definition noRoundingCoord :: "real \<Rightarrow> real \<Rightarrow> real \<Rightarrow> real \<Rightarrow> bool" where
  "noRoundingCoord prevSize nextSize pivot prevOffset =
     (isDouble (pivot - prevOffset)
      \<and> isDouble ((pivot - prevOffset) / prevSize)
      \<and> isDouble ((pivot - prevOffset) / prevSize * nextSize)
      \<and> isDouble (pivot - (pivot - prevOffset) / prevSize * nextSize))"

definition noRounding :: "real \<Rightarrow> real \<Rightarrow> point \<Rightarrow> point \<Rightarrow> bool" where
  "noRounding prevSize nextSize pivot prevOffset =
     (noRoundingCoord prevSize nextSize (px pivot) (px prevOffset)
      \<and> noRoundingCoord prevSize nextSize (py pivot) (py prevOffset))"

section \<open>Infinite gallery: tile lookup\<close>

text \<open>
  \<^verbatim>\<open>
  const itemIndex = Math.abs((x + y * 3) % items.length)
  const item = items[itemIndex]
  \<close>
  The loop variables \<open>x\<close> and \<open>y\<close> are integers. The operator \<open>%\<close> of JavaScript takes the
  sign of the dividend (it truncates, where \<open>mod\<close> of HOL floors), and a remainder by 0 is
  \<open>NaN\<close>: \<open>None\<close>.
\<close>

definition jsRem :: "int \<Rightarrow> int \<Rightarrow> int option" where
  "jsRem a n = (if n = 0 then None else Some (sgn a * (\<bar>a\<bar> mod \<bar>n\<bar>)))"

definition itemIndex :: "int \<Rightarrow> int \<Rightarrow> nat \<Rightarrow> int option" where
  "itemIndex x y len = map_option abs (jsRem (x + y * 3) (int len))"

text \<open>
  A gallery item, \<open>{ title, image: { src, alt }, year, href }\<close>. The field \<open>image\<close> is
  named \<open>img\<close> here and may be absent, since the tile reads it as \<open>item?.image?.src\<close>.
\<close>

record imageRef =
  src :: string
  alt :: string

record galleryItem =
  title :: string
  img :: "imageRef option"
  year :: int
  href :: string

text \<open>
  An array read in JavaScript gives \<open>undefined\<close> at \<open>NaN\<close> and at any index outside
  the array: \<open>None\<close>.
\<close>

definition itemAt :: "galleryItem list \<Rightarrow> int \<Rightarrow> int \<Rightarrow> galleryItem option" where
  "itemAt items x y =
     (case itemIndex x y (length items) of
        None \<Rightarrow> None
      | Some i \<Rightarrow> if 0 \<le> i \<and> i < int (length items) then Some (items ! nat i) else None)"

text \<open>
  What a tile shows of its item:
  \<^verbatim>\<open>
  item?.image?.src || <placeholder>     item?.title || "Project"
  item?.year || 2024                    item?.href || "#"
  \<close>
  \<open>a || b\<close> is \<open>b\<close> when \<open>a\<close> is undefined, the empty string or 0. The placeholder of the
  image is a fixed address in one version of the gallery and the empty string in the other.
\<close>

record tileView =
  tileSrc :: string
  tileTitle :: string
  tileYear :: int
  tileHref :: string

definition orElse :: "string option \<Rightarrow> string \<Rightarrow> string" where
  "orElse v d = (case v of None \<Rightarrow> d | Some s \<Rightarrow> if s = [] then d else s)"

definition renderTile :: "string \<Rightarrow> galleryItem option \<Rightarrow> tileView" where
  "renderTile placeholder item =
     \<lparr>tileSrc = orElse (case item of None \<Rightarrow> None
                         | Some it \<Rightarrow> (case img it of None \<Rightarrow> None | Some im \<Rightarrow> Some (src im)))
                        placeholder,
      tileTitle = orElse (map_option title item) ''Project'',
      tileYear = (case item of None \<Rightarrow> 2024 | Some it \<Rightarrow> if year it = 0 then 2024 else year it),
      tileHref = orElse (map_option href item) ''#''\<rparr>"

section \<open>Infinite gallery: inertia\<close>

text \<open>
  The functions of \<open>Math\<close> that the animation frame calls, on real numbers.
  \<open>Math.pow\<close> is \<open>powr\<close> for a base that is not negative; \<open>Math.atan2(y, x)\<close> is the
  angle of the point \<open>(x, y)\<close>, from \<open>-pi\<close> (excluded) to \<open>pi\<close>, and 0 at the origin.
  The language leaves the precision of these functions to the implementation, and the
  inertia update is taken over the real numbers throughout, without rounding.
\<close>

definition hypot :: "real \<Rightarrow> real \<Rightarrow> real" where
  "hypot a b = sqrt (a\<^sup>2 + b\<^sup>2)"










section \<open>Timers and animation frames\<close>

text \<open>
  The timers of the browser, as far as their handles go: \<open>setTimeout\<close>, \<open>setInterval\<close>
  and \<open>requestAnimationFrame\<close> return a new handle (a positive number) and the callback
  is pending from then on; \<open>clearTimeout\<close>, \<open>clearInterval\<close> and
  \<open>cancelAnimationFrame\<close> take a handle and the callback is pending no more. A timeout
  or a frame that has run is pending no more either.
\<close>

record timerEnv =
  pending :: "nat list"
  nextHandle :: nat

definition setTimer :: "timerEnv \<Rightarrow> nat \<times> timerEnv" where
  "setTimer e = (nextHandle e, e\<lparr>pending := pending e @ [nextHandle e], nextHandle := Suc (nextHandle e)\<rparr>)"

definition clearTimer :: "nat \<Rightarrow> timerEnv \<Rightarrow> timerEnv" where
  "clearTimer h e = e\<lparr>pending := removeAll h (pending e)\<rparr>"

text \<open>
  The gallery holds two handles: the variable \<open>raf\<close> of its animation effect and
  \<open>pressTimerRef\<close>. The record below is the gallery's state as far as these handles go.
\<close>

record galleryTimers =
  raf :: nat
  pressTimerRef :: "nat option"
  timers :: timerEnv

text \<open>
  \<^verbatim>\<open>
  useEffect(() => {
      let raf = 0
      const tick = () => { ...; raf = requestAnimationFrame(tick) }
      raf = requestAnimationFrame(tick)
      return () => cancelAnimationFrame(raf)
  }, [...])
  \<close>
  This cleanup is all that runs when the gallery unmounts: no other effect of the gallery
  that returns a cleanup holds a timer, and none names \<open>pressTimerRef\<close>.
\<close>

definition galleryMount :: "timerEnv \<Rightarrow> galleryTimers" where
  "galleryMount e =
     (case setTimer e of (h, e1) \<Rightarrow> \<lparr>raf = h, pressTimerRef = None, timers = e1\<rparr>)"

definition frameRuns :: "galleryTimers \<Rightarrow> galleryTimers" where
  "frameRuns g =
     (case setTimer (clearTimer (raf g) (timers g)) of (h, e1) \<Rightarrow> g\<lparr>raf := h, timers := e1\<rparr>)"

definition galleryUnmount :: "galleryTimers \<Rightarrow> galleryTimers" where
  "galleryUnmount g = g\<lparr>timers := clearTimer (raf g) (timers g)\<rparr>"

text \<open>
  \<^verbatim>\<open>
  // handlePointerDown
  if (pressTimerRef.current) window.clearTimeout(pressTimerRef.current)
  pressTimerRef.current = window.setTimeout(() => { ... }, PRESS_ZOOM_DELAY)

  // handlePointerUp
  if (pressTimerRef.current) {
      window.clearTimeout(pressTimerRef.current)
      pressTimerRef.current = null
  }
  \<close>
\<close>

definition handlePointerDown :: "galleryTimers \<Rightarrow> galleryTimers" where
  "handlePointerDown g =
     (let e0 = (case pressTimerRef g of None \<Rightarrow> timers g | Some h \<Rightarrow> clearTimer h (timers g))
      in case setTimer e0 of (h, e1) \<Rightarrow> g\<lparr>pressTimerRef := Some h, timers := e1\<rparr>)"

definition handlePointerUp :: "galleryTimers \<Rightarrow> galleryTimers" where
  "handlePointerUp g =
     (case pressTimerRef g of
        None \<Rightarrow> g
      | Some h \<Rightarrow> g\<lparr>pressTimerRef := None, timers := clearTimer h (timers g)\<rparr>)"

definition noTimers :: timerEnv where
  "noTimers = \<lparr>pending = [], nextHandle = 1\<rparr>"

section \<open>Video player: time display\<close>

text \<open>
  The decimal digits of a natural number.
\<close>

definition digitChar :: "nat \<Rightarrow> char" where
  "digitChar d = ''0123456789'' ! d"

fun natStr :: "nat \<Rightarrow> string" where
  "natStr n = (if n < 10 then [digitChar n] else natStr (n div 10) @ [digitChar (n mod 10)])"

declare natStr.simps [simp del]

text \<open>
  The text that \<open>toString\<close> and a template literal give for a number whose value is an
  integer. Up to \<open>2^53\<close> it is the decimal digits of the integer, after a minus sign where
  it is negative. Beyond, JavaScript writes the shortest decimal that reads back as the
  same double (at most 17 significant digits, and an exponent from \<open>10^21\<close> on), which
  is in general not the digits of the integer; that text is not modelled: \<open>None\<close>.
\<close>

definition numStr :: "int \<Rightarrow> string option" where
  "numStr i =
     (if \<bar>i\<bar> < 2 ^ 53
      then Some (if i < 0 then CHR ''-'' # natStr (nat (- i)) else natStr (nat i))
      else None)"

definition isDigit :: "char \<Rightarrow> bool" where
  "isDigit c = (c \<in> set ''0123456789'')"

text \<open>\<open>s.padStart(n, c)\<close> for a one-character \<open>c\<close>: pads on the left up to length \<open>n\<close>.\<close>

definition padStart :: "nat \<Rightarrow> char \<Rightarrow> string \<Rightarrow> string" where
  "padStart n c s = replicate (n - length s) c @ s"

text \<open>
  \<^verbatim>\<open>
  const formatTime = (time: number) => {
      const minutes = Math.floor(time / 60)
      const seconds = Math.floor(time % 60)
      return `${minutes}:${seconds.toString().padStart(2, "0")}`
  }
  \<close>
  The division rounds; \<open>%\<close> and \<open>Math.floor\<close> do not.
\<close>

definition minutesField :: "real \<Rightarrow> int option" where
  "minutesField time = map_option floor (jsDiv time 60)"

definition secondsField :: "real \<Rightarrow> int" where
  "secondsField time = \<lfloor>fmod time 60\<rfloor>"

definition formatTime :: "real \<Rightarrow> string option" where
  "formatTime time =
     (case minutesField time of
        None \<Rightarrow> None
      | Some minutes \<Rightarrow>
          (case numStr minutes of
             None \<Rightarrow> None
           | Some m \<Rightarrow>
               (case numStr (secondsField time) of
                  None \<Rightarrow> None
                | Some s \<Rightarrow> Some (m @ '':'' @ padStart 2 (CHR ''0'') s))))"

section \<open>Minimal video player\<close>

text \<open>
  The state of one player: the variables of its \<open>useState\<close> calls. \<open>currentTime\<close> and
  \<open>duration\<close> of the source are the fields \<open>shownTime\<close> and \<open>shownDuration\<close>.
\<close>

record playerState =
  isPlaying :: bool
  shownTime :: real
  shownDuration :: real
  showPlayButton :: bool
  isHovered :: bool
  hasPlayedOnce :: bool
  showPosterImage :: bool

text \<open>
  The listeners of the video element:
  \<^verbatim>\<open>
  const updateTime = () => { setCurrentTime(video.currentTime); setDuration(video.duration || 0) }
  const handlePlay = () => { setIsPlaying(true); setShowPlayButton(false); setHasPlayedOnce(true) }
  const handlePause = () => { setIsPlaying(false); setShowPlayButton(true) }
  const handleReady = () => { setTimeout(() => setShowPosterImage(false), 50) }
  const handleError = () => { setShowPosterImage(true); setIsPlaying(false) }
  \<close>
  \<open>handleReady\<close> changes no state itself; the callback of its timeout is
  \<open>posterHideTimeout\<close>.
\<close>

definition updateTime :: "real \<Rightarrow> real \<Rightarrow> playerState \<Rightarrow> playerState" where
  "updateTime t d s = s\<lparr>shownTime := t, shownDuration := d\<rparr>"

definition handlePlay :: "playerState \<Rightarrow> playerState" where
  "handlePlay s = s\<lparr>isPlaying := True, showPlayButton := False, hasPlayedOnce := True\<rparr>"

definition handlePause :: "playerState \<Rightarrow> playerState" where
  "handlePause s = s\<lparr>isPlaying := False, showPlayButton := True\<rparr>"


definition handleError :: "playerState \<Rightarrow> playerState" where
  "handleError s = s\<lparr>showPosterImage := True, isPlaying := False\<rparr>"

text \<open>
  The events of the video element that have a listener. The listeners are registered by an
  effect that returns at once in the static renderer (\<open>if (!video || isStatic) return\<close>),
  so that there an event changes nothing.
\<close>

datatype playerEvent =
  EvTimeUpdate real real
  | EvLoadedMetadata real real
  | EvPlay
  | EvPause
  | EvPlaying
  | EvError

fun listener :: "playerEvent \<Rightarrow> playerState \<Rightarrow> playerState" where
  "listener (EvTimeUpdate t d) s = updateTime t d s"
| "listener (EvLoadedMetadata t d) s = updateTime t d s"
| "listener EvPlay s = handlePlay s"
| "listener EvPause s = handlePause s"
| "listener EvPlaying s = s"
| "listener EvError s = handleError s"

definition onVideoElementEvent :: "bool \<Rightarrow> playerEvent \<Rightarrow> playerState \<Rightarrow> playerState" where
  "onVideoElementEvent isStatic ev s = (if isStatic then s else listener ev s)"

text \<open>
  \<open>video.play()\<close> returns a promise; every call in the player has the same handler,
  \<open>video.play().catch(() => setShowPosterImage(true))\<close>.
\<close>

datatype playOutcome = Resolved | Rejected

fun afterPlay :: "playOutcome \<Rightarrow> playerState \<Rightarrow> playerState" where
  "afterPlay Resolved s = s"
| "afterPlay Rejected s = s\<lparr>showPosterImage := True\<rparr>"

text \<open>
  \<^verbatim>\<open>
  useEffect(() => {
      const video = videoRef.current
      if (!video || isStatic || !autoPlay) return
      let timer = null
      if (autoPlayDelay > 0) {
          timer = setTimeout(() => { video.play().catch(() => setShowPosterImage(true)) }, autoPlayDelay)
      } else {
          video.play().catch(() => setShowPosterImage(true))
      }
      return () => { if (timer) clearTimeout(timer) }
  }, [autoPlay, autoPlayDelay, isStatic])
  \<close>
  The effect attempts to play, at once or after the delay, unless it returns early. The
  argument \<open>outcome\<close> is what the promise of that attempt does.
\<close>

definition autoplayAttempts :: "bool \<Rightarrow> bool \<Rightarrow> bool" where
  "autoplayAttempts isStatic autoPlay = (\<not> (isStatic \<or> \<not> autoPlay))"

definition autoplayEffect :: "bool \<Rightarrow> bool \<Rightarrow> playOutcome \<Rightarrow> playerState \<Rightarrow> playerState" where
  "autoplayEffect isStatic autoPlay outcome s =
     (if isStatic \<or> \<not> autoPlay then s else afterPlay outcome s)"

text \<open>
  \<^verbatim>\<open>
  const togglePlay = () => {
      if (isStatic) return
      const video = videoRef.current
      if (!video) return
      if (isPlaying) { video.pause() } else { video.play().catch(() => setShowPosterImage(true)) }
  }
  \<close>
  \<open>video.pause()\<close> changes the state of the player only through the pause event that
  follows.
\<close>

definition toggleAttempts :: "bool \<Rightarrow> playerState \<Rightarrow> bool" where
  "toggleAttempts isStatic s = (\<not> isStatic \<and> \<not> isPlaying s)"

definition togglePlay :: "bool \<Rightarrow> playOutcome \<Rightarrow> playerState \<Rightarrow> playerState" where
  "togglePlay isStatic outcome s =
     (if isStatic then s
      else if isPlaying s then s
      else afterPlay outcome s)"

text \<open>
  The poster is an image over the video, drawn only when the property \<open>showPoster\<close> is
  set, with \<open>opacity: showPosterImage ? 1 : 0\<close>.
\<close>

definition posterOpacity :: "bool \<Rightarrow> playerState \<Rightarrow> real option" where
  "posterOpacity showPoster s =
     (if showPoster then Some (if showPosterImage s then 1 else 0) else None)"

section \<open>AmbiLight player\<close>

text \<open>
  A media element, as far as the player reads and writes it: its position in seconds and
  whether it is paused.
\<close>

record media =
  currentTime :: real
  paused :: bool

text \<open>
  \<open>g.play()\<close> clears \<open>paused\<close> at once when the browser allows the element to play, and
  rejects its promise and leaves the element paused when it does not. The handler of the
  rejection is empty (\<open>.catch(() => {})\<close>).
\<close>

definition glowPlay :: "bool \<Rightarrow> media \<Rightarrow> media" where
  "glowPlay playAllowed g = (if playAllowed then g\<lparr>paused := False\<rparr> else g)"

text \<open>
  \<^verbatim>\<open>
  const sync = () => {
      try {
          if (Math.abs((g.currentTime ?? 0) - (v.currentTime ?? 0)) > 0.2)
              g.currentTime = v.currentTime
          if (v.paused && !g.paused) g.pause()
          if (!v.paused && g.paused) g.play().catch(() => {})
      } catch {}
  }
  \<close>
  \<open>v\<close> is the main video and \<open>g\<close> the glow video; \<open>sync\<close> writes to \<open>g\<close> only.
  The position of a media element is always a number, so that \<open>?? 0\<close> never applies,
  and reading and writing these fields does not throw: the three statements all run.
\<close>

definition sync :: "bool \<Rightarrow> media \<Rightarrow> media \<Rightarrow> media" where
  "sync playAllowed v g =
     (let g1 = (if \<bar>currentTime g - currentTime v\<bar> > 0.2
                then g\<lparr>currentTime := currentTime v\<rparr> else g);
          g2 = (if paused v \<and> \<not> paused g1 then g1\<lparr>paused := True\<rparr> else g1);
          g3 = (if \<not> paused v \<and> paused g2 then glowPlay playAllowed g2 else g2)
      in g3)"





section \<open>Logo preloader\<close>

text \<open>The display phase: \<open>useState("init") // init, loading, logoOut, done\<close>.\<close>

datatype phase = Init | Loading | LogoOut | Done

text \<open>
  \<^verbatim>\<open>
  useEffect(() => {
      if (isStatic) return
      const t0 = setTimeout(() => { startTransition(() => setPhase("loading")) }, 50)
      const t1 = setTimeout(() => { startTransition(() => setPhase("logoOut")) }, duration * 1000 + 50)
      const t2 = setTimeout(() => { startTransition(() => setPhase("done")) }, duration * 1000 + 750)
      return () => { clearTimeout(t0); clearTimeout(t1); clearTimeout(t2) }
  }, [duration, isStatic])
  \<close>
  The second argument of \<open>setTimeout\<close> for the last two timeouts: \<open>duration * 1000 + c\<close>
  in doubles.
\<close>

definition delayArg :: "real \<Rightarrow> real \<Rightarrow> real option" where
  "delayArg dur c = (case jsMul dur 1000 of None \<Rightarrow> None | Some a \<Rightarrow> jsAdd a c)"

text \<open>
  The browser converts the delay to a 32-bit signed integer: a number that is not finite
  becomes 0, any other is truncated and taken modulo \<open>2^32\<close> into the range from
  \<open>-2^31\<close> to \<open>2^31 - 1\<close>. A negative delay then counts as 0.
\<close>

definition toInt32 :: "real \<Rightarrow> int" where
  "toInt32 d =
     (let n = trunc d mod 2 ^ 32
      in if 2 ^ 31 \<le> n then n - 2 ^ 32 else n)"

definition timeoutDelay :: "real option \<Rightarrow> int" where
  "timeoutDelay d = (case d of None \<Rightarrow> 0 | Some v \<Rightarrow> max 0 (toInt32 v))"

text \<open>
  A timeout of the effect is its delay in milliseconds, as the browser takes it, and the
  phase its callback sets. The list is in the order of the calls.
\<close>

record phaseTimer =
  delayMs :: int
  setsPhase :: phase

definition preloaderTimers :: "bool \<Rightarrow> real \<Rightarrow> phaseTimer list" where
  "preloaderTimers isStatic dur =
     (if isStatic then []
      else [\<lparr>delayMs = timeoutDelay (Some 50), setsPhase = Loading\<rparr>,
            \<lparr>delayMs = timeoutDelay (delayArg dur 50), setsPhase = LogoOut\<rparr>,
            \<lparr>delayMs = timeoutDelay (delayArg dur 750), setsPhase = Done\<rparr>])"

text \<open>
  The browser runs the timeouts set at one moment in the order of their delays, and
  timeouts of equal delay in the order in which they were set.
\<close>

definition firingOrder :: "phaseTimer list \<Rightarrow> phaseTimer list" where
  "firingOrder ts = sort_key delayMs ts"

text \<open>
  Each callback sets the phase inside \<open>startTransition\<close>, so that the component is
  rendered with the new phase in a later task. Callbacks that are due at the same
  millisecond run one after the other before that: only the phase that the last of them
  sets is displayed.
\<close>

fun committed :: "phaseTimer list \<Rightarrow> phase list" where
  "committed [] = []"
| "committed [t] = [setsPhase t]"
| "committed (t # u # ts) =
     (if delayMs t = delayMs u then committed (u # ts)
      else setsPhase t # committed (u # ts))"

text \<open>
  The phases a mounted preloader displays, from the initial one, when the effect runs
  once; and the moments (in milliseconds after the mount) at which its timeouts run.
\<close>

definition displayedPhases :: "bool \<Rightarrow> real \<Rightarrow> phase list" where
  "displayedPhases isStatic dur = Init # committed (firingOrder (preloaderTimers isStatic dur))"

definition phaseTimes :: "bool \<Rightarrow> real \<Rightarrow> int list" where
  "phaseTimes isStatic dur = map delayMs (firingOrder (preloaderTimers isStatic dur))"

text \<open>
  The effect depends on \<open>duration\<close>. When the property changes \<open>changeAt\<close> milliseconds
  after the mount, the cleanup clears the timeouts that have not run yet and the effect
  sets its three timeouts again, from that moment, with the new duration.
\<close>

definition displayedAfterChange :: "real \<Rightarrow> int \<Rightarrow> real \<Rightarrow> phase list" where
  "displayedAfterChange dur changeAt dur2 =
     Init # committed (filter (\<lambda>t. delayMs t < changeAt) (firingOrder (preloaderTimers False dur)))
          @ committed (firingOrder (preloaderTimers False dur2))"

fun phaseRank :: "phase \<Rightarrow> nat" where
  "phaseRank Init = 0"
| "phaseRank Loading = 1"
| "phaseRank LogoOut = 2"
| "phaseRank Done = 3"

definition neverBackward :: "phase list \<Rightarrow> bool" where
  "neverBackward ps = sorted (map phaseRank ps)"

text \<open>
  \<^verbatim>\<open>
  if (phase === "done") return null
  let logoTranslateY = 0
  let logoOpacity = 1
  if (phase === "init") { logoTranslateY = 80; logoOpacity = 0 }
  else if (phase === "loading") { logoTranslateY = 0; logoOpacity = 1 }
  else if (phase === "logoOut") { logoTranslateY = -80; logoOpacity = 0 }
  const bgOpacity = phase === "logoOut" ? 0 : 1
  \<close>
  What the preloader renders: nothing (\<open>None\<close>), or an element with these three values.
\<close>

record preloaderView =
  logoTranslateY :: real
  logoOpacity :: real
  bgOpacity :: real

definition renderPreloader :: "phase \<Rightarrow> preloaderView option" where
  "renderPreloader ph =
     (if ph = Done then None
      else Some \<lparr>logoTranslateY = (if ph = Init then 80 else if ph = Loading then 0
                                   else if ph = LogoOut then -80 else 0),
                 logoOpacity = (if ph = Init then 0 else if ph = Loading then 1
                                else if ph = LogoOut then 0 else 1),
                 bgOpacity = (if ph = LogoOut then 0 else 1)\<rparr>)"

section \<open>AmbiLight player: the YouTube API loader\<close>

text \<open>
  The part of the global object \<open>window\<close> (and of the document) that the loader reads
  and writes: whether \<open>window.YT && window.YT.Player\<close> holds, the flag
  \<open>window._ytApiLoading\<close>, and the addresses of the scripts appended to
  \<open>document.head\<close>. It is one object for the whole page, shared by every component.
\<close>

record windowState =
  ytPlayerApi :: bool
  ytApiLoading :: bool
  headScripts :: "string list"

text \<open>
  \<^verbatim>\<open>
  function loadYouTubeAPI() {
      if (window.YT && window.YT.Player) return
      if (window._ytApiLoading) return
      window._ytApiLoading = true
      const tag = document.createElement("script")
      tag.src = "https://www.youtube.com/iframe_api"
      document.head.appendChild(tag)
  }
  \<close>
\<close>

definition loadYouTubeAPI :: "windowState \<Rightarrow> windowState" where
  "loadYouTubeAPI w =
     (if ytPlayerApi w then w
      else if ytApiLoading w then w
      else w\<lparr>ytApiLoading := True,
             headScripts := headScripts w @ [''https://www.youtube.com/iframe_api'']\<rparr>)"


datatype renderTarget = Canvas | Export | Thumbnail | Preview






section \<open>A page of components\<close>
















text \<open>
  The loader has been used consistently when the document holds at most one script, and
  holds one only with the flag set.
\<close>

definition loadedOnce :: "windowState \<Rightarrow> bool" where
  "loadedOnce w = (length (headScripts w) \<le> 1 \<and> (headScripts w = [] \<or> ytApiLoading w))"




section \<open>Theorems\<close>

subsection \<open>Rounding to a double\<close>

lemma roundHalfEven_of_int [simp]: "roundHalfEven (of_int n) = n"
  by (simp add: roundHalfEven_def)

lemma roundHalfEven_lower: "of_int n \<le> q \<Longrightarrow> n \<le> roundHalfEven q"
proof -
  assume "of_int n \<le> q"
  then have "n \<le> \<lfloor>q\<rfloor>" by (simp add: le_floor_iff)
  then show ?thesis by (simp add: roundHalfEven_def Let_def)
qed

lemma roundHalfEven_upper: "q \<le> of_int n \<Longrightarrow> roundHalfEven q \<le> n"
proof -
  assume q: "q \<le> of_int n"
  show ?thesis
  proof (cases "q = of_int n")
    case True
    then show ?thesis by simp
  next
    case False
    with q have "q < of_int n" by simp
    then have "\<lfloor>q\<rfloor> < n" by (simp add: floor_less_iff)
    then show ?thesis by (simp add: roundHalfEven_def Let_def)
  qed
qed

lemma roundHalfEven_below: "q < of_int n - 1 / 2 \<Longrightarrow> roundHalfEven q < n"
proof -
  assume q: "q < of_int n - 1 / 2"
  have f: "of_int \<lfloor>q\<rfloor> \<le> q" by simp
  show ?thesis
  proof (cases "q - of_int \<lfloor>q\<rfloor> < 1 / 2")
    case True
    have "of_int \<lfloor>q\<rfloor> < (of_int n :: real)" using f q by linarith
    then have "\<lfloor>q\<rfloor> < n" by simp
    then show ?thesis using True by (simp add: roundHalfEven_def Let_def)
  next
    case False
    then have "of_int \<lfloor>q\<rfloor> + 1 < (of_int n :: real)" using q by linarith
    then have "of_int (\<lfloor>q\<rfloor> + 1) < (of_int n :: real)" by simp
    then have "\<lfloor>q\<rfloor> + 1 < n" by (simp only: of_int_less_iff)
    then show ?thesis by (simp add: roundHalfEven_def Let_def)
  qed
qed

lemma powr_pow2: "2 powr (of_int p) = (2::real) powi p"
  by (simp add: powr_real_of_int')

lemma powr_pow2_Suc: "2 powr (of_int p + 1) = (2::real) powi (p + 1)"
proof -
  have "of_int p + (1::real) = of_int (p + 1)" by simp
  then show ?thesis by (simp only: powr_pow2)
qed

lemma binExp_eq:
  assumes "2 powi p \<le> \<bar>x\<bar>" and "\<bar>x\<bar> < 2 powi (p + 1)"
  shows "binExp x = p"
proof -
  have "0 < (2::real) powi p" by simp
  then have pos: "0 < \<bar>x\<bar>" using assms(1) by linarith
  have "2 powr (of_int p) \<le> \<bar>x\<bar> \<and> \<bar>x\<bar> < 2 powr (of_int p + 1)"
    using assms by (simp only: powr_pow2 powr_pow2_Suc)
  then show ?thesis
    unfolding binExp_def using pos by (simp add: floor_log_eq_powr_iff)
qed

lemma binExp_bounds:
  assumes "x \<noteq> 0"
  shows "2 powi (binExp x) \<le> \<bar>x\<bar> \<and> \<bar>x\<bar> < 2 powi (binExp x + 1)"
proof -
  have pos: "0 < \<bar>x\<bar>" using assms by simp
  have "2 powr (of_int (binExp x)) \<le> \<bar>x\<bar> \<and> \<bar>x\<bar> < 2 powr (of_int (binExp x) + 1)"
    using floor_log_eq_powr_iff [of "\<bar>x\<bar>" 2 "binExp x"] pos by (simp add: binExp_def)
  then show ?thesis by (simp only: powr_pow2 powr_pow2_Suc)
qed

lemma nonzero_of_pow2_le:
  fixes x :: real
  assumes "2 powi p \<le> \<bar>x\<bar>"
  shows "x \<noteq> 0"
proof
  assume "x = 0"
  with assms have "(2::real) powi p \<le> 0" by simp
  moreover have "0 < (2::real) powi p" by (rule zero_less_power_int) simp
  ultimately show False by linarith
qed

lemma fl_eval:
  assumes "2 powi p \<le> \<bar>x\<bar>" and "\<bar>x\<bar> < 2 powi (p + 1)"
  shows "fl x =
           (let e = max (p - 52) (- 1074);
                r = of_int (roundHalfEven (x / 2 powi e)) * 2 powi e
            in if 2 powi 1024 \<le> \<bar>r\<bar> then None else Some r)"
proof -
  have "x \<noteq> 0" using assms(1) by (rule nonzero_of_pow2_le)
  then show ?thesis
    by (simp add: fl_def ulpExp_def binExp_eq [OF assms])
qed

lemma binExp_less:
  assumes "x \<noteq> 0" and "\<bar>x\<bar> < 2 powi j"
  shows "binExp x < j"
proof (rule ccontr)
  assume "\<not> binExp x < j"
  then have "j \<le> binExp x" by simp
  then have "(2::real) powi j \<le> 2 powi (binExp x)"
    by (intro power_int_increasing) simp_all
  then show False using binExp_bounds [OF assms(1)] assms(2) by linarith
qed

lemma binExp_ge:
  assumes "2 powi p \<le> \<bar>x\<bar>"
  shows "p \<le> binExp x"
proof (rule ccontr)
  have nz: "x \<noteq> 0" using assms by (rule nonzero_of_pow2_le)
  assume "\<not> p \<le> binExp x"
  then have "binExp x + 1 \<le> p" by simp
  then have "(2::real) powi (binExp x + 1) \<le> 2 powi p"
    by (intro power_int_increasing) simp_all
  then show False using binExp_bounds [OF nz] assms by linarith
qed

lemma pow2_neg: "e \<le> 0 \<Longrightarrow> (2::real) powi e = 1 / 2 ^ nat (- e)"
proof -
  assume "e \<le> 0"
  then have "e = - int (nat (- e))" by simp
  then have "(2::real) powi e = 2 powi (- int (nat (- e)))" by simp
  also have "\<dots> = 1 / 2 ^ nat (- e)"
    by (simp only: power_int_minus_divide power_int_of_nat)
  finally show ?thesis .
qed

lemma fl_between_ints:
  assumes a: "0 \<le> a" "of_int a \<le> x" and b: "x \<le> of_int b" "b < 2 ^ 53"
  shows "\<exists>r. fl x = Some r \<and> of_int a \<le> r \<and> r \<le> of_int b"
proof (cases "x = 0")
  case True
  then show ?thesis using a b by (simp add: fl_def)
next
  case False
  have x0: "0 \<le> x" using a by linarith
  have "(of_int b :: real) < of_int (2 ^ 53)" using b(2) by (simp only: of_int_less_iff)
  then have "x < of_int (2 ^ 53 :: int)" using b(1) by linarith
  then have "\<bar>x\<bar> < 2 powi 53" using x0 by simp
  then have "binExp x < 53" using False by (rule binExp_less [rotated])
  then have e0: "ulpExp x \<le> 0" by (simp add: ulpExp_def)
  define k where "k = nat (- ulpExp x)"
  have p: "(2::real) powi (ulpExp x) = 1 / 2 ^ k"
    unfolding k_def using e0 by (rule pow2_neg)
  have q: "x / 2 powi (ulpExp x) = x * 2 ^ k" by (simp add: p)
  define n where "n = roundHalfEven (x * 2 ^ k)"
  have "of_int (a * 2 ^ k) \<le> x * 2 ^ k" using a(2) by simp
  then have lo: "a * 2 ^ k \<le> n" unfolding n_def by (rule roundHalfEven_lower)
  have "x * 2 ^ k \<le> of_int (b * 2 ^ k)" using b(1) by simp
  then have hi: "n \<le> b * 2 ^ k" unfolding n_def by (rule roundHalfEven_upper)
  define r where "r = of_int n * (2::real) powi (ulpExp x)"
  have r: "r = of_int n / 2 ^ k" by (simp add: r_def p)
  have "of_int (a * 2 ^ k) \<le> (of_int n :: real)" using lo by (simp only: of_int_le_iff)
  then have rlo: "of_int a \<le> r" by (simp add: r pos_le_divide_eq)
  have "(of_int n :: real) \<le> of_int (b * 2 ^ k)" using hi by (simp only: of_int_le_iff)
  then have rhi: "r \<le> of_int b" by (simp add: r pos_divide_le_eq)
  have "(of_int b :: real) < of_int (2 ^ 53)" using b(2) by (simp only: of_int_less_iff)
  then have "r < of_int (2 ^ 53 :: int)" using rhi by linarith
  moreover have "(0::real) \<le> of_int a" using a(1) by simp
  then have "0 \<le> r" using rlo by linarith
  moreover have "(2::real) ^ 53 \<le> 2 ^ 1024" by (rule power_increasing) simp_all
  ultimately have fin: "\<not> 2 powi 1024 \<le> \<bar>r\<bar>" by simp
  have "fl x = Some r"
    using False fin by (simp add: fl_def Let_def q r_def n_def)
  then show ?thesis using rlo rhi by blast
qed

lemma isDouble_of_nat_int: "0 \<le> n \<Longrightarrow> n < 2 ^ 53 \<Longrightarrow> isDouble (of_int n)"
proof -
  assume "0 \<le> n" and "n < 2 ^ 53"
  from fl_between_ints [OF this(1) order_refl order_refl this(2)]
  obtain r where "fl (of_int n) = Some r" "of_int n \<le> r" "r \<le> of_int n" by blast
  then show ?thesis by (simp add: isDouble_def)
qed

lemma pow2_diff: "(2::real) powi (j - int n) = 2 powi j / 2 ^ n"
  by (simp add: power_int_diff)

lemma pow2_add: "(2::real) powi (j + int n) = 2 powi j * 2 ^ n"
  by (simp add: power_int_add)

lemma fl_below_int:
  assumes x: "0 < x" "x < 2 powi j" and j: "j \<le> 53" "- 1021 \<le> j"
    and gap: "2 powi j / 2 ^ 54 < of_int K - x" and K: "K \<le> 2 ^ 53"
  shows "\<exists>r. fl x = Some r \<and> 0 \<le> r \<and> r < of_int K"
proof -
  have nz: "x \<noteq> 0" using x(1) by simp
  have "binExp x < j" using nz x by (intro binExp_less) simp_all
  then have e: "ulpExp x \<le> j - 53" using j(2) by (simp add: ulpExp_def)
  then have e0: "ulpExp x \<le> 0" using j(1) by simp
  define k where "k = nat (- ulpExp x)"
  have p: "(2::real) powi (ulpExp x) = 1 / 2 ^ k"
    unfolding k_def using e0 by (rule pow2_neg)
  have q: "x / 2 powi (ulpExp x) = x * 2 ^ k" by (simp add: p)
  have "(2::real) powi (ulpExp x) \<le> 2 powi (j - 53)"
    using e by (intro power_int_increasing) simp_all
  then have le: "1 / 2 ^ k \<le> (2::real) powi j / 2 ^ 53"
    using pow2_diff [of j 53] by (simp add: p)
  define A :: real where "A = 1 / 2 ^ k"
  define B :: real where "B = 2 powi j"
  have A: "0 < A" by (simp add: A_def)
  have "A \<le> B / 2 ^ 53" using le by (simp add: A_def B_def)
  moreover have "B / 2 ^ 54 < of_int K - x" using gap by (simp add: B_def)
  ultimately have "A * (1 / 2) < of_int K - x" by simp
  then have "(1 / 2) < (of_int K - x) / A"
    using A by (simp add: pos_less_divide_eq mult.commute)
  then have "1 / 2 < (of_int K - x) * 2 ^ k"
    by (simp add: A_def)
  then have "x * 2 ^ k < of_int (K * 2 ^ k) - 1 / 2"
    by (simp add: algebra_simps)
  then have hi: "roundHalfEven (x * 2 ^ k) < K * 2 ^ k" by (rule roundHalfEven_below)
  have "of_int 0 \<le> x * 2 ^ k" using x(1) by simp
  then have lo: "0 \<le> roundHalfEven (x * 2 ^ k)" by (rule roundHalfEven_lower)
  define n where "n = roundHalfEven (x * 2 ^ k)"
  define r where "r = of_int n * (2::real) powi (ulpExp x)"
  have r: "r = of_int n / 2 ^ k" by (simp add: r_def p)
  have "(of_int n :: real) < of_int (K * 2 ^ k)" using hi unfolding n_def by (simp only: of_int_less_iff)
  then have rhi: "r < of_int K" by (simp add: r pos_divide_less_eq)
  have rlo: "0 \<le> r" using lo by (simp add: r n_def)
  have "(of_int K :: real) \<le> of_int (2 ^ 53)" using K by (simp only: of_int_le_iff)
  then have "r < 2 ^ 53" using rhi by simp
  moreover have "(2::real) ^ 53 \<le> 2 ^ 1024" by (rule power_increasing) simp_all
  ultimately have fin: "\<not> 2 powi 1024 \<le> \<bar>r\<bar>" using rlo by simp
  have "fl x = Some r"
    using nz fin by (simp add: fl_def Let_def q r_def n_def)
  then show ?thesis using rlo rhi by blast
qed

lemma isDouble_multiple:
  assumes "isDouble t" and "2 powi p \<le> \<bar>t\<bar>"
  shows "\<exists>n::int. t = of_int n * 2 powi (p - 52)"
proof -
  have nz: "t \<noteq> 0" using assms(2) by (rule nonzero_of_pow2_le)
  define m where "m = roundHalfEven (t / 2 powi (ulpExp t))"
  have "fl t = Some t" using assms(1) by (simp add: isDouble_def)
  then have t: "t = of_int m * 2 powi (ulpExp t)"
    using nz by (simp add: fl_def Let_def m_def split: if_splits)
  have "p \<le> binExp t" using assms(2) by (rule binExp_ge)
  then have "p - 52 \<le> ulpExp t" by (simp add: ulpExp_def)
  then obtain d :: nat where d: "ulpExp t = (p - 52) + int d"
    by (metis add.commute diff_add_cancel nonneg_int_cases diff_ge_0_iff_ge)
  have "(2::real) powi (ulpExp t) = 2 powi (p - 52) * 2 ^ d"
    unfolding d by (rule pow2_add)
  then have "t = of_int (m * 2 ^ d) * 2 powi (p - 52)"
    using t by simp
  then show ?thesis by blast
qed

lemma jsDiv60_floor:
  assumes d: "isDouble t" and t: "0 \<le> t" "t < 2 ^ 53"
  shows "\<exists>q. jsDiv t 60 = Some q \<and> 0 \<le> q \<and> \<lfloor>q\<rfloor> = \<lfloor>t / 60\<rfloor>"
proof -
  define x where "x = t / 60"
  define k where "k = \<lfloor>x\<rfloor>"
  define K where "K = k + 1"
  have x0: "0 \<le> x" using t(1) by (simp add: x_def)
  have k0: "0 \<le> k" using x0 by (simp add: k_def)
  have kx: "of_int k \<le> x" by (simp add: k_def)
  have xK: "x < of_int K" by (simp add: K_def k_def)
  have "x < 2 ^ 53 / 60" using t(2) by (simp add: x_def)
  then have "of_int K < (2 ^ 53 / 60 + 1 :: real)" using kx by (simp add: K_def)
  then have "of_int K < (of_int (2 ^ 48) :: real)" by simp
  then have Kb: "K < 2 ^ 48" by (simp only: of_int_less_iff)
  then have Kb53: "K < 2 ^ 53" by simp
  from fl_between_ints [OF k0 kx less_imp_le [OF xK] Kb53]
  obtain r where r: "fl x = Some r" "of_int k \<le> r" "r \<le> of_int K" by blast
  have "r < of_int K"
  proof (cases "x = 0")
    case True
    then have "r = 0" using r(1) by (simp add: fl_def)
    then show ?thesis using True xK by simp
  next
    case False
    then have xpos: "0 < x" using x0 by simp
    have K1: "1 \<le> K" using k0 by (simp add: K_def)
    then have Knz: "(of_int K :: real) \<noteq> 0" by simp
    have Kabs: "\<bar>of_int K :: real\<bar> = of_int K" using K1 by simp
    define j where "j = binExp (of_int K) + 1"
    define B :: real where "B = 2 powi j"
    have B0: "0 < B" by (simp add: B_def)
    have "2 powi (j - 1) \<le> (of_int K :: real) \<and> of_int K < (2::real) powi j"
      using binExp_bounds [OF Knz] by (simp add: j_def Kabs)
    then have KB: "B / 2 \<le> of_int K" "of_int K < B"
      using pow2_diff [of j 1] by (simp_all add: B_def)
    have "(of_int K :: real) < of_int (2 ^ 48)" using Kb by (simp only: of_int_less_iff)
    then have "\<bar>of_int K :: real\<bar> < 2 powi 48" using Kabs by simp
    then have "binExp (of_int K) < 48" using Knz by (intro binExp_less) simp_all
    then have j48: "j \<le> 48" by (simp add: j_def)
    have "(2::real) powi 0 \<le> \<bar>of_int K\<bar>" using K1 by simp
    then have "0 \<le> binExp (of_int K)" by (rule binExp_ge)
    then have j1: "1 \<le> j" by (simp add: j_def)
    have t60: "t = 60 * x" by (simp add: x_def)
    have gap: "B / 2 ^ 54 < of_int K - x"
    proof (cases "t < 16 * B")
      case True
      then have "60 * x < 16 * B" using t60 by simp
      moreover have "30 * B \<le> 60 * of_int K" using KB(1) by simp
      ultimately have "14 * B < 60 * of_int K - 60 * x" by linarith
      moreover have "B / 2 ^ 54 * 60 \<le> 14 * B" using B0 by simp
      ultimately have "B / 2 ^ 54 * 60 < 60 * of_int K - 60 * x" by linarith
      then show ?thesis by (simp add: algebra_simps)
    next
      case False
      then have "2 powi (j + 4) \<le> \<bar>t\<bar>"
        using pow2_add [of j 4] t(1) by (simp add: B_def)
      from isDouble_multiple [OF d this]
      obtain n :: int where n: "t = of_int n * 2 powi (j - 48)" by auto
      define m where "m = nat (48 - j)"
      have "(2::real) powi (j - 48) = 1 / 2 ^ m"
        unfolding m_def using pow2_neg [of "j - 48"] j48 by simp
      then have tn: "t = of_int n / 2 ^ m" using n by simp
      have u: "(2::real) powi (j - 48) = B / 2 ^ 48"
        using pow2_diff [of j 48] by (simp add: B_def)
      have um: "1 / 2 ^ m = B / 2 ^ 48"
        using u \<open>(2::real) powi (j - 48) = 1 / 2 ^ m\<close> by simp
      have "t < 60 * of_int K" using xK t60 by simp
      then have "of_int n / 2 ^ m < (60 * of_int K :: real)" by (simp add: tn)
      then have "(of_int n :: real) < of_int (60 * K * 2 ^ m)"
        by (simp add: pos_divide_less_eq)
      then have "n < 60 * K * 2 ^ m" by (simp only: of_int_less_iff)
      then have "n + 1 \<le> 60 * K * 2 ^ m" by simp
      then have "(of_int (n + 1) :: real) \<le> of_int (60 * K * 2 ^ m)" by (simp only: of_int_le_iff)
      then have "(of_int n + 1) / 2 ^ m \<le> (60 * of_int K :: real)"
        by (simp add: pos_divide_le_eq)
      then have "t + 1 / 2 ^ m \<le> 60 * of_int K"
        by (simp add: tn add_divide_distrib)
      then have "60 * x + B / 2 ^ 48 \<le> 60 * of_int K" using um t60 by simp
      moreover have "B / 2 ^ 54 * 60 < B / 2 ^ 48" using B0 by simp
      ultimately have "B / 2 ^ 54 * 60 < 60 * of_int K - 60 * x" by linarith
      then show ?thesis by (simp add: algebra_simps)
    qed
    have xB: "x < 2 powi j" using xK KB(2) by (simp add: B_def)
    have j53: "j \<le> 53" using j48 by simp
    have jlo: "- 1021 \<le> j" using j1 by simp
    have gap': "2 powi j / 2 ^ 54 < of_int K - x" using gap by (simp add: B_def)
    have K53: "K \<le> 2 ^ 53" using Kb53 by simp
    from fl_below_int [OF xpos xB j53 jlo gap' K53]
    obtain r' where "fl x = Some r'" "r' < of_int K" by blast
    then show ?thesis using r(1) by simp
  qed
  then have "r < of_int k + 1" by (simp add: K_def)
  then have "\<lfloor>r\<rfloor> = k" using r(2) by (intro floor_unique) simp_all
  moreover have "(0::real) \<le> of_int k" using k0 by simp
  then have "0 \<le> r" using r(2) by linarith
  moreover have "jsDiv t 60 = Some r" using r(1) by (simp add: jsDiv_def x_def)
  ultimately show ?thesis by (simp add: k_def x_def)
qed

subsection \<open>Pinned zoom\<close>

lemma pinnedCoord_exact:
  assumes "prevSize \<noteq> 0" and "noRoundingCoord prevSize nextSize pivot prevOffset"
  shows "pinnedCoord prevSize nextSize pivot prevOffset
           = Some (pivot - (pivot - prevOffset) / prevSize * nextSize)"
  using assms
  by (simp add: pinnedCoord_def noRoundingCoord_def isDouble_def jsSub_def jsDiv_def jsMul_def)

lemma pinnedExactCoord_exact:
  assumes "prevSize \<noteq> 0" and "nextSize \<noteq> 0"
    and "noRoundingCoord prevSize nextSize pivot prevOffset"
  shows "pinnedExactCoord prevSize nextSize pivot prevOffset"
  using assms
  by (simp add: pinnedExactCoord_def pinnedCoord_exact worldCoord_def)

text \<open>
  C1 (as amended). For every previous cell size other than 0 and every next cell size
  other than 0, every pivot and every previous offset for which no operation of
  \<open>computePinnedOffset\<close> rounds, the offset returned keeps the world coordinate under the
  pivot unchanged in both axes; and when the next size is the previous size, the offset
  returned is the previous offset.
\<close>

theorem computePinnedOffset_pins:
  assumes "prevSize \<noteq> 0" and "nextSize \<noteq> 0"
    and "noRounding prevSize nextSize pivot prevOffset"
  shows "computePinnedOffset prevSize nextSize pivot prevOffset
           = \<lparr>newX = Some (px pivot - (px pivot - px prevOffset) / prevSize * nextSize),
              newY = Some (py pivot - (py pivot - py prevOffset) / prevSize * nextSize)\<rparr>
         \<and> pinnedExact prevSize nextSize pivot prevOffset
         \<and> (nextSize = prevSize \<longrightarrow>
              computePinnedOffset prevSize nextSize pivot prevOffset
                = \<lparr>newX = Some (px prevOffset), newY = Some (py prevOffset)\<rparr>)"
proof -
  have x: "noRoundingCoord prevSize nextSize (px pivot) (px prevOffset)"
    and y: "noRoundingCoord prevSize nextSize (py pivot) (py prevOffset)"
    using assms(3) by (simp_all add: noRounding_def)
  have cx: "pinnedCoord prevSize nextSize (px pivot) (px prevOffset)
              = Some (px pivot - (px pivot - px prevOffset) / prevSize * nextSize)"
    using assms(1) x by (rule pinnedCoord_exact)
  have cy: "pinnedCoord prevSize nextSize (py pivot) (py prevOffset)
              = Some (py pivot - (py pivot - py prevOffset) / prevSize * nextSize)"
    using assms(1) y by (rule pinnedCoord_exact)
  have r: "computePinnedOffset prevSize nextSize pivot prevOffset
           = \<lparr>newX = Some (px pivot - (px pivot - px prevOffset) / prevSize * nextSize),
              newY = Some (py pivot - (py pivot - py prevOffset) / prevSize * nextSize)\<rparr>"
    by (simp add: computePinnedOffset_def cx cy)
  have e: "pinnedExact prevSize nextSize pivot prevOffset"
    using assms(1,2) x y by (simp add: pinnedExact_def pinnedExactCoord_exact)
  have s: "nextSize = prevSize \<longrightarrow>
              computePinnedOffset prevSize nextSize pivot prevOffset
                = \<lparr>newX = Some (px prevOffset), newY = Some (py prevOffset)\<rparr>"
  proof
    assume "nextSize = prevSize"
    then show "computePinnedOffset prevSize nextSize pivot prevOffset
                = \<lparr>newX = Some (px prevOffset), newY = Some (py prevOffset)\<rparr>"
      unfolding r using assms(1) by simp
  qed
  from r e s show ?thesis by blast
qed

theorem computePinnedOffset_pins_witness:
  "computePinnedOffset 200 100 \<lparr>px = 400, py = 300\<rparr> \<lparr>px = 0, py = 100\<rparr>
     = \<lparr>newX = Some 200, newY = Some 200\<rparr>
   \<and> pinnedExact 200 100 \<lparr>px = 400, py = 300\<rparr> \<lparr>px = 0, py = 100\<rparr>
   \<and> computePinnedOffset 200 200 \<lparr>px = 400, py = 300\<rparr> \<lparr>px = 0, py = 100\<rparr>
     = \<lparr>newX = Some 0, newY = Some 100\<rparr>"
proof -
  have d: "isDouble 0" "isDouble 1" "isDouble 2" "isDouble 100" "isDouble 200"
    "isDouble 300" "isDouble 400"
    using isDouble_of_nat_int [of 0] isDouble_of_nat_int [of 1] isDouble_of_nat_int [of 2]
      isDouble_of_nat_int [of 100] isDouble_of_nat_int [of 200] isDouble_of_nat_int [of 300]
      isDouble_of_nat_int [of 400]
    by simp_all
  have a: "noRounding 200 100 \<lparr>px = 400, py = 300\<rparr> \<lparr>px = 0, py = 100\<rparr>"
    using d by (simp add: noRounding_def noRoundingCoord_def)
  have b: "noRounding 200 200 \<lparr>px = 400, py = 300\<rparr> \<lparr>px = 0, py = 100\<rparr>"
    using d by (simp add: noRounding_def noRoundingCoord_def)
  show ?thesis
    using computePinnedOffset_pins [of 200 100 "\<lparr>px = 400, py = 300\<rparr>" "\<lparr>px = 0, py = 100\<rparr>"]
          computePinnedOffset_pins [of 200 200 "\<lparr>px = 400, py = 300\<rparr>" "\<lparr>px = 0, py = 100\<rparr>"]
          a b
    by simp
qed

lemma fl_1022_100: "fl (1022 / 100) = Some (5753348523965809 / 2 ^ 49)"
  using fl_eval [of 3 "1022 / 100"] by (simp add: roundHalfEven_def Let_def)

lemma fl_times_100: "fl (5753348523965809 / 2 ^ 49 * 100) = Some (1022 + 1 / 2 ^ 43)"
  using fl_eval [of 9 "5753348523965809 / 2 ^ 49 * 100"] by (simp add: roundHalfEven_def Let_def)

lemma fl_400_minus: "fl (400 - (1022 + 1 / 2 ^ 43)) = Some (- 622 - 1 / 2 ^ 43)"
  using fl_eval [of 9 "400 - (1022 + 1 / 2 ^ 43)"] by (simp add: roundHalfEven_def Let_def)

lemma pinnedCoord_same_size_rounds:
  "pinnedCoord 100 100 400 (- 622) = Some (- 622 - 1 / 2 ^ 43)"
proof -
  have "fl (1022 :: real) = Some 1022"
    using isDouble_of_nat_int [of 1022] by (simp add: isDouble_def)
  then show ?thesis
    using fl_1022_100 fl_times_100 fl_400_minus
    by (simp add: pinnedCoord_def jsSub_def jsDiv_def jsMul_def)
qed

text \<open>
  C1 as stated fails in two ways. At a next cell size of 0 the offset returned is the
  pivot itself, whatever the previous offset was, and there is no world coordinate to
  compare. And the operations round: at equal sizes 100, pivot \<open>(400, 300)\<close> and previous
  offset \<open>(-622, 0)\<close> the quotient 10.22 is not a double, and the offset returned is
  \<open>-622.0000000000001\<close> (that is \<open>-622 - 2^-43\<close>), not the previous offset, so that the
  world coordinate under the pivot has changed.
\<close>

theorem computePinnedOffset_counterexample:
  "computePinnedOffset 1 0 \<lparr>px = 1, py = 0\<rparr> \<lparr>px = 0, py = 0\<rparr>
     = \<lparr>newX = Some 1, newY = Some 0\<rparr>
   \<and> \<not> pinnedExact 1 0 \<lparr>px = 1, py = 0\<rparr> \<lparr>px = 0, py = 0\<rparr>
   \<and> newX (computePinnedOffset 100 100 \<lparr>px = 400, py = 300\<rparr> \<lparr>px = - 622, py = 0\<rparr>)
     = Some (- 622 - 1 / 2 ^ 43)
   \<and> newX (computePinnedOffset 100 100 \<lparr>px = 400, py = 300\<rparr> \<lparr>px = - 622, py = 0\<rparr>)
     \<noteq> Some (- 622)
   \<and> \<not> pinnedExact 100 100 \<lparr>px = 400, py = 300\<rparr> \<lparr>px = - 622, py = 0\<rparr>"
proof -
  have one: "fl (1 :: real) = Some 1"
    using isDouble_of_nat_int [of 1] by (simp add: isDouble_def)
  have zero: "fl (0 :: real) = Some 0" by (simp add: fl_def)
  have a: "pinnedCoord 1 0 1 0 = Some 1" "pinnedCoord 1 0 0 0 = Some 0"
    using one zero by (simp_all add: pinnedCoord_def jsSub_def jsDiv_def jsMul_def)
  have b: "\<not> pinnedExactCoord 1 0 1 0"
    using a by (simp add: pinnedExactCoord_def worldCoord_def)
  have c: "\<not> pinnedExactCoord 100 100 400 (- 622)"
    using pinnedCoord_same_size_rounds by (simp add: pinnedExactCoord_def worldCoord_def)
  show ?thesis
    using a b c pinnedCoord_same_size_rounds
    by (simp add: computePinnedOffset_def pinnedExact_def)
qed

subsection \<open>Tile lookup\<close>

lemma jsRem_bounds:
  assumes "0 < n"
  shows "\<exists>r. jsRem a n = Some r \<and> \<bar>r\<bar> < n"
proof -
  have "\<bar>sgn a * (\<bar>a\<bar> mod \<bar>n\<bar>)\<bar> = \<bar>sgn a\<bar> * (\<bar>a\<bar> mod n)"
    using assms by (simp add: abs_mult)
  also have "\<dots> \<le> \<bar>a\<bar> mod n"
    using assms by (simp add: abs_sgn_eq mult_left_le_one_le)
  also have "\<dots> < n" using assms by simp
  finally show ?thesis using assms by (simp add: jsRem_def)
qed

text \<open>
  C8. For a list of items that is not empty and integers \<open>x\<close> and \<open>y\<close>, the index
  \<open>Math.abs((x + y * 3) % items.length)\<close> is a number from 0 to \<open>items.length - 1\<close> and the
  tile reads an item of the list. For the empty list the index is \<open>NaN\<close>, the item is
  undefined, and every field the tile shows is its placeholder.
\<close>

theorem itemIndex_in_bounds:
  "(items \<noteq> [] \<longrightarrow>
      (\<exists>i. itemIndex x y (length items) = Some i \<and> 0 \<le> i \<and> i < int (length items)
           \<and> itemAt items x y = Some (items ! nat i)))
   \<and> (items = [] \<longrightarrow>
        itemIndex x y (length items) = None \<and> itemAt items x y = None
        \<and> renderTile placeholder (itemAt items x y)
            = \<lparr>tileSrc = placeholder, tileTitle = ''Project'', tileYear = 2024, tileHref = ''#''\<rparr>)"
proof (intro conjI impI)
  assume ne: "items \<noteq> []"
  then have "0 < int (length items)" by simp
  from jsRem_bounds [OF this, of "x + y * 3"]
  obtain r where r: "jsRem (x + y * 3) (int (length items)) = Some r" "\<bar>r\<bar> < int (length items)"
    by blast
  then show "\<exists>i. itemIndex x y (length items) = Some i \<and> 0 \<le> i \<and> i < int (length items)
           \<and> itemAt items x y = Some (items ! nat i)"
    by (simp add: itemIndex_def itemAt_def)
next
  assume "items = []"
  then show "itemIndex x y (length items) = None" by (simp add: itemIndex_def jsRem_def)
next
  assume "items = []"
  then show "itemAt items x y = None" by (simp add: itemAt_def itemIndex_def jsRem_def)
next
  assume "items = []"
  then show "renderTile placeholder (itemAt items x y)
            = \<lparr>tileSrc = placeholder, tileTitle = ''Project'', tileYear = 2024, tileHref = ''#''\<rparr>"
    by (simp add: itemAt_def itemIndex_def jsRem_def renderTile_def orElse_def)
qed

theorem itemIndex_in_bounds_witness:
  "itemAt [\<lparr>title = ''A'', img = None, year = 2024, href = ''/a''\<rparr>,
           \<lparr>title = ''B'', img = None, year = 2023, href = ''/b''\<rparr>] (-2) (-1)
     = Some \<lparr>title = ''B'', img = None, year = 2023, href = ''/b''\<rparr>
   \<and> itemAt [] 4 7 = None"
  using itemIndex_in_bounds [of "[\<lparr>title = ''A'', img = None, year = 2024, href = ''/a''\<rparr>,
           \<lparr>title = ''B'', img = None, year = 2023, href = ''/b''\<rparr>]" "-2" "-1" "''''"]
        itemIndex_in_bounds [of "[]" 4 7 "''''"]
  by (simp add: itemIndex_def jsRem_def)

subsection \<open>Inertia\<close>

lemma hypot_nonneg: "0 \<le> hypot a b"
  by (simp add: hypot_def)

lemma hypot_zero_iff: "hypot a b = 0 \<longleftrightarrow> a = 0 \<and> b = 0"
  by (simp add: hypot_def)
















subsection \<open>Timers on teardown\<close>

text \<open>
  The animation frame of the gallery is cancelled on unmount, and a press that was
  released has left no timer behind.
\<close>

lemma gallery_frame_cancelled:
  "pending (timers (galleryUnmount (frameRuns (frameRuns (galleryMount noTimers))))) = []"
  by (simp add: galleryUnmount_def frameRuns_def galleryMount_def setTimer_def clearTimer_def
      noTimers_def)

lemma gallery_released_press_cleared:
  "pending (timers (galleryUnmount (handlePointerUp (handlePointerDown (galleryMount noTimers))))) = []"
  by (simp add: galleryUnmount_def handlePointerUp_def handlePointerDown_def galleryMount_def
      setTimer_def clearTimer_def noTimers_def)

text \<open>
  C6 fails for the press timeout of the gallery. A gallery that is unmounted while the
  pointer is down, before the 120 ms of the press delay are over, cancels its animation
  frame and leaves the press timeout (handle 2) pending.
\<close>

theorem gallery_press_timer_survives_unmount:
  "pending (timers (handlePointerDown (galleryMount noTimers))) = [1, 2]
   \<and> pressTimerRef (handlePointerDown (galleryMount noTimers)) = Some 2
   \<and> pending (timers (galleryUnmount (handlePointerDown (galleryMount noTimers)))) = [2]"
  by (simp add: galleryUnmount_def handlePointerDown_def galleryMount_def
      setTimer_def clearTimer_def noTimers_def)

subsection \<open>Time display\<close>

lemma floor_fmod_60:
  assumes "0 \<le> t"
  shows "\<lfloor>fmod t 60\<rfloor> = \<lfloor>t\<rfloor> mod 60"
proof -
  have d: "\<lfloor>t / 60\<rfloor> = \<lfloor>t\<rfloor> div 60"
    using floor_divide_real_eq_div [of 60 t] by simp
  have "fmod t 60 = t - of_int (60 * (\<lfloor>t\<rfloor> div 60))"
    using assms d by (simp add: fmod_def trunc_def)
  then have "\<lfloor>fmod t 60\<rfloor> = \<lfloor>t\<rfloor> - 60 * (\<lfloor>t\<rfloor> div 60)"
    by (simp only: floor_diff_of_int)
  also have "\<dots> = \<lfloor>t\<rfloor> mod 60"
    by (simp add: minus_mult_div_eq_mod)
  finally show ?thesis .
qed

lemma isDigit_digitChar: "d < 10 \<Longrightarrow> isDigit (digitChar d)"
proof -
  assume "d < 10"
  then have "d \<in> {0, 1, 2, 3, 4, 5, 6, 7, 8, 9}" by auto
  then show ?thesis by (auto simp: isDigit_def digitChar_def)
qed

lemma natStr_one_digit: "n < 10 \<Longrightarrow> natStr n = [digitChar n]"
  by (simp add: natStr.simps)

lemma natStr_two_digits:
  "10 \<le> n \<Longrightarrow> n < 100 \<Longrightarrow> natStr n = [digitChar (n div 10), digitChar (n mod 10)]"
  by (subst natStr.simps) (simp add: natStr_one_digit)

lemma padStart_seconds:
  assumes "n < 60"
  shows "padStart 2 (CHR ''0'') (natStr n) =
           [if n < 10 then CHR ''0'' else digitChar (n div 10), digitChar (n mod 10)]"
proof (cases "n < 10")
  case True
  then show ?thesis by (simp add: natStr_one_digit padStart_def)
next
  case False
  then show ?thesis using assms by (simp add: natStr_two_digits padStart_def)
qed

lemma all_digits_natStr: "list_all isDigit (natStr n)"
proof (induction n rule: natStr.induct)
  case (1 n)
  show ?case
  proof (cases "n < 10")
    case True
    then show ?thesis by (simp add: natStr_one_digit isDigit_digitChar)
  next
    case False
    then have "list_all isDigit (natStr (n div 10))" using "1" by simp
    moreover have "isDigit (digitChar (n mod 10))" by (simp add: isDigit_digitChar)
    ultimately show ?thesis using False by (subst natStr.simps) simp
  qed
qed

lemma numStr_nat: "0 \<le> i \<Longrightarrow> i < 2 ^ 53 \<Longrightarrow> numStr i = Some (natStr (nat i))"
  by (simp add: numStr_def)

text \<open>
  C9 (as amended). For every time \<open>t\<close> that is a double, not negative and below \<open>2^53\<close>
  seconds, \<open>formatTime\<close> returns the digits of \<open>floor (t / 60)\<close>, a colon, and the digits
  of \<open>floor t mod 60\<close> padded with a zero to exactly two characters; the seconds are from
  0 to 59; and below 600 seconds the minutes are one digit, so that the text has the four
  characters of \<open>M:SS\<close>.
\<close>

theorem formatTime_spec:
  assumes "isDouble t" and "0 \<le> t" and "t < 2 ^ 53"
  shows "formatTime t =
           Some (natStr (nat \<lfloor>t / 60\<rfloor>) @ '':''
                 @ padStart 2 (CHR ''0'') (natStr (nat (\<lfloor>t\<rfloor> mod 60))))
         \<and> minutesField t = Some \<lfloor>t / 60\<rfloor>
         \<and> secondsField t = \<lfloor>t\<rfloor> mod 60
         \<and> 0 \<le> secondsField t \<and> secondsField t \<le> 59
         \<and> length (padStart 2 (CHR ''0'') (natStr (nat (\<lfloor>t\<rfloor> mod 60)))) = 2
         \<and> list_all isDigit (natStr (nat \<lfloor>t / 60\<rfloor>))
         \<and> list_all isDigit (padStart 2 (CHR ''0'') (natStr (nat (\<lfloor>t\<rfloor> mod 60))))
         \<and> (t < 600 \<longrightarrow> length (natStr (nat \<lfloor>t / 60\<rfloor>)) = 1
                          \<and> (\<exists>m s10 s1. isDigit m \<and> isDigit s10 \<and> isDigit s1
                                \<and> formatTime t = Some [m, CHR '':'', s10, s1]))"
proof -
  from jsDiv60_floor [OF assms]
  obtain q where q: "jsDiv t 60 = Some q" "\<lfloor>q\<rfloor> = \<lfloor>t / 60\<rfloor>" by blast
  have mf: "minutesField t = Some \<lfloor>t / 60\<rfloor>"
    by (simp add: minutesField_def q)
  have m0: "0 \<le> \<lfloor>t / 60\<rfloor>" using assms(2) by simp
  have "t / 60 < 2 ^ 53" using assms(2,3) by simp
  then have "t / 60 < real_of_int (2 ^ 53)" by simp
  then have "\<lfloor>t / 60\<rfloor> < 2 ^ 53" by (simp only: floor_less_iff)
  then have nm: "numStr \<lfloor>t / 60\<rfloor> = Some (natStr (nat \<lfloor>t / 60\<rfloor>))"
    using m0 by (intro numStr_nat)
  have s: "secondsField t = \<lfloor>t\<rfloor> mod 60"
    unfolding secondsField_def by (rule floor_fmod_60 [OF assms(2)])
  have ns: "numStr (secondsField t) = Some (natStr (nat (\<lfloor>t\<rfloor> mod 60)))"
    unfolding s by (intro numStr_nat) simp_all
  have f: "formatTime t =
           Some (natStr (nat \<lfloor>t / 60\<rfloor>) @ '':''
                 @ padStart 2 (CHR ''0'') (natStr (nat (\<lfloor>t\<rfloor> mod 60))))"
    by (simp add: formatTime_def mf nm ns)
  have r: "0 \<le> secondsField t \<and> secondsField t \<le> 59"
    unfolding s by simp
  have lt: "nat (\<lfloor>t\<rfloor> mod 60) < 60" by simp
  have l2: "length (padStart 2 (CHR ''0'') (natStr (nat (\<lfloor>t\<rfloor> mod 60)))) = 2"
    by (simp only: padStart_seconds [OF lt]) simp
  have d1: "list_all isDigit (natStr (nat \<lfloor>t / 60\<rfloor>))" by (rule all_digits_natStr)
  have d2: "list_all isDigit (padStart 2 (CHR ''0'') (natStr (nat (\<lfloor>t\<rfloor> mod 60))))"
  proof -
    have "list_all isDigit (replicate k (CHR ''0''))" for k
      by (induction k) (simp_all add: isDigit_def)
    then show ?thesis by (simp add: padStart_def all_digits_natStr)
  qed
  have sh: "t < 600 \<longrightarrow> length (natStr (nat \<lfloor>t / 60\<rfloor>)) = 1
                          \<and> (\<exists>m s10 s1. isDigit m \<and> isDigit s10 \<and> isDigit s1
                                \<and> formatTime t = Some [m, CHR '':'', s10, s1])"
  proof
    assume "t < 600"
    then have "t / 60 < 10" by simp
    then have "\<lfloor>t / 60\<rfloor> < 10" by linarith
    then have m10: "nat \<lfloor>t / 60\<rfloor> < 10" using m0 by linarith
    then have one: "natStr (nat \<lfloor>t / 60\<rfloor>) = [digitChar (nat \<lfloor>t / 60\<rfloor>)]"
      by (rule natStr_one_digit)
    have dm: "isDigit (digitChar (nat \<lfloor>t / 60\<rfloor>))" using m10 by (rule isDigit_digitChar)
    define n where "n = nat (\<lfloor>t\<rfloor> mod 60)"
    have n60: "n < 60" by (simp add: n_def)
    have pad: "padStart 2 (CHR ''0'') (natStr n) =
           [if n < 10 then CHR ''0'' else digitChar (n div 10), digitChar (n mod 10)]"
      using n60 by (rule padStart_seconds)
    have z: "isDigit (CHR ''0'')" by (simp add: isDigit_def)
    have "n div 10 < 10" using n60 by simp
    then have d10: "isDigit (if n < 10 then CHR ''0'' else digitChar (n div 10))"
      using z by (simp add: isDigit_digitChar)
    have du: "isDigit (digitChar (n mod 10))" by (simp add: isDigit_digitChar)
    have "formatTime t = Some [digitChar (nat \<lfloor>t / 60\<rfloor>), CHR '':'',
            if n < 10 then CHR ''0'' else digitChar (n div 10), digitChar (n mod 10)]"
      unfolding f one using pad by (simp add: n_def)
    then show "length (natStr (nat \<lfloor>t / 60\<rfloor>)) = 1
                          \<and> (\<exists>m s10 s1. isDigit m \<and> isDigit s10 \<and> isDigit s1
                                \<and> formatTime t = Some [m, CHR '':'', s10, s1])"
      using one dm d10 du by auto
  qed
  from f mf s r l2 d1 d2 sh show ?thesis by blast
qed

theorem formatTime_spec_witness:
  "formatTime 125.5 = Some ''2:05'' \<and> secondsField 125.5 = 5 \<and> minutesField 125.5 = Some 2"
proof -
  have d: "isDouble 125.5"
    using fl_eval [of 6 "125.5"] by (simp add: isDouble_def roundHalfEven_def Let_def)
  show ?thesis
    using formatTime_spec [of "125.5"] d
    by (simp add: natStr.simps padStart_def digitChar_def)
qed

lemma jsDiv_large: "jsDiv 102207206757378896 60 = Some 1703453445956315"
  using fl_eval [of 50 "102207206757378896 / 60"]
  by (simp add: jsDiv_def roundHalfEven_def Let_def)

text \<open>
  C9 as stated fails for large times. The time 102207206757378896 is a double; its
  quotient by 60 is rounded up to the next double, an integer, so that the minutes
  written are 1703453445956315, one more than \<open>floor (t / 60)\<close>.
\<close>

theorem formatTime_large_counterexample:
  "isDouble 102207206757378896
   \<and> minutesField 102207206757378896 = Some 1703453445956315
   \<and> \<lfloor>(102207206757378896 :: real) / 60\<rfloor> = 1703453445956314
   \<and> formatTime 102207206757378896 = Some ''1703453445956315:56''"
proof -
  have d: "isDouble 102207206757378896"
    using fl_eval [of 56 "102207206757378896"]
    by (simp add: isDouble_def roundHalfEven_def Let_def)
  have m: "minutesField 102207206757378896 = Some 1703453445956315"
    by (simp add: minutesField_def jsDiv_large)
  have fl60: "\<lfloor>(102207206757378896 :: real) / 60\<rfloor> = 1703453445956314" by simp
  have s: "secondsField 102207206757378896 = 56"
    by (simp add: secondsField_def fmod_def trunc_def)
  have n: "natStr 1703453445956315 = ''1703453445956315''"
    by (simp add: natStr.simps digitChar_def)
  have n56: "natStr 56 = ''56''"
    by (simp add: natStr.simps digitChar_def)
  have f: "formatTime 102207206757378896 = Some ''1703453445956315:56''"
    by (simp add: formatTime_def m s numStr_def n n56 padStart_def)
  from d m fl60 f show ?thesis by blast
qed

subsection \<open>Video player: failures\<close>

text \<open>
  C4 (as amended). Outside the static renderer, when the video element fires an error
  event, \<open>showPosterImage\<close> becomes true and \<open>isPlaying\<close> false; when an attempt to
  play, from the autoplay effect or from \<open>togglePlay\<close>, is rejected, \<open>showPosterImage\<close>
  becomes true; and these handlers change no other variable of the state. With the
  property \<open>showPoster\<close> set, the poster is then drawn opaque.
\<close>

theorem failure_shows_poster:
  "handleError s = s\<lparr>showPosterImage := True, isPlaying := False\<rparr>
   \<and> afterPlay Rejected s = s\<lparr>showPosterImage := True\<rparr>
   \<and> (\<not> isStatic \<longrightarrow>
        onVideoElementEvent isStatic EvError s = s\<lparr>showPosterImage := True, isPlaying := False\<rparr>
        \<and> showPosterImage (onVideoElementEvent isStatic EvError s)
        \<and> \<not> isPlaying (onVideoElementEvent isStatic EvError s)
        \<and> posterOpacity True (onVideoElementEvent isStatic EvError s) = Some 1)
   \<and> (autoplayAttempts isStatic autoPlay \<longrightarrow>
        autoplayEffect isStatic autoPlay Rejected s = s\<lparr>showPosterImage := True\<rparr>
        \<and> posterOpacity True (autoplayEffect isStatic autoPlay Rejected s) = Some 1)
   \<and> (toggleAttempts isStatic s \<longrightarrow>
        togglePlay isStatic Rejected s = s\<lparr>showPosterImage := True\<rparr>
        \<and> posterOpacity True (togglePlay isStatic Rejected s) = Some 1)"
  by (simp add: handleError_def onVideoElementEvent_def autoplayAttempts_def autoplayEffect_def
      toggleAttempts_def togglePlay_def posterOpacity_def)

theorem failure_shows_poster_witness:
  "onVideoElementEvent False EvError
     \<lparr>isPlaying = True, shownTime = 3, shownDuration = 10, showPlayButton = False,
      isHovered = True, hasPlayedOnce = True, showPosterImage = False\<rparr>
   = \<lparr>isPlaying = False, shownTime = 3, shownDuration = 10, showPlayButton = False,
      isHovered = True, hasPlayedOnce = True, showPosterImage = True\<rparr>
   \<and> autoplayEffect False True Rejected
     \<lparr>isPlaying = True, shownTime = 0, shownDuration = 0, showPlayButton = False,
      isHovered = False, hasPlayedOnce = True, showPosterImage = False\<rparr>
   = \<lparr>isPlaying = True, shownTime = 0, shownDuration = 0, showPlayButton = False,
      isHovered = False, hasPlayedOnce = True, showPosterImage = True\<rparr>
   \<and> togglePlay False Rejected
     \<lparr>isPlaying = False, shownTime = 0, shownDuration = 0, showPlayButton = True,
      isHovered = False, hasPlayedOnce = False, showPosterImage = False\<rparr>
   = \<lparr>isPlaying = False, shownTime = 0, shownDuration = 0, showPlayButton = True,
      isHovered = False, hasPlayedOnce = False, showPosterImage = True\<rparr>"
  using failure_shows_poster [of
          "\<lparr>isPlaying = True, shownTime = 3, shownDuration = 10, showPlayButton = False,
            isHovered = True, hasPlayedOnce = True, showPosterImage = False\<rparr>" False True]
        failure_shows_poster [of
          "\<lparr>isPlaying = True, shownTime = 0, shownDuration = 0, showPlayButton = False,
            isHovered = False, hasPlayedOnce = True, showPosterImage = False\<rparr>" False True]
        failure_shows_poster [of
          "\<lparr>isPlaying = False, shownTime = 0, shownDuration = 0, showPlayButton = True,
            isHovered = False, hasPlayedOnce = False, showPosterImage = False\<rparr>" False True]
  by (simp add: autoplayAttempts_def toggleAttempts_def)

text \<open>
  C4 as stated fails in the static renderer: the effect that registers the listeners
  returns before it registers any, and an error event of the video element leaves the
  state as it is, with \<open>showPosterImage\<close> false and \<open>isPlaying\<close> true.
\<close>

theorem failure_static_counterexample:
  "onVideoElementEvent True EvError
     \<lparr>isPlaying = True, shownTime = 3, shownDuration = 10, showPlayButton = False,
      isHovered = False, hasPlayedOnce = True, showPosterImage = False\<rparr>
   = \<lparr>isPlaying = True, shownTime = 3, shownDuration = 10, showPlayButton = False,
      isHovered = False, hasPlayedOnce = True, showPosterImage = False\<rparr>
   \<and> \<not> showPosterImage (onVideoElementEvent True EvError
     \<lparr>isPlaying = True, shownTime = 3, shownDuration = 10, showPlayButton = False,
      isHovered = False, hasPlayedOnce = True, showPosterImage = False\<rparr>)
   \<and> isPlaying (onVideoElementEvent True EvError
     \<lparr>isPlaying = True, shownTime = 3, shownDuration = 10, showPlayButton = False,
      isHovered = False, hasPlayedOnce = True, showPosterImage = False\<rparr>)"
  by (simp add: onVideoElementEvent_def)

subsection \<open>AmbiLight player\<close>

text \<open>
  C7. After \<open>sync\<close>, either the glow video was within 0.2 seconds of the main video and
  its position is unchanged, or its position is that of the main video; the glow video is
  paused exactly when the main video is, provided the browser lets the glow video play;
  and it is paused whenever the main video is.
\<close>

theorem sync_keeps_glow_synchronised:
  "((\<bar>currentTime g - currentTime v\<bar> \<le> 0.2 \<and> currentTime (sync playAllowed v g) = currentTime g)
     \<or> currentTime (sync playAllowed v g) = currentTime v)
   \<and> (playAllowed \<longrightarrow> paused (sync playAllowed v g) = paused v)
   \<and> (paused v \<longrightarrow> paused (sync playAllowed v g))"
  by (auto simp: sync_def glowPlay_def Let_def)

theorem sync_keeps_glow_synchronised_witness:
  "currentTime (sync True \<lparr>currentTime = 12.5, paused = False\<rparr> \<lparr>currentTime = 11, paused = True\<rparr>) = 12.5
   \<and> paused (sync True \<lparr>currentTime = 12.5, paused = False\<rparr> \<lparr>currentTime = 11, paused = True\<rparr>) = False
   \<and> paused (sync False \<lparr>currentTime = 3, paused = True\<rparr> \<lparr>currentTime = 3.1, paused = False\<rparr>)"
  using sync_keeps_glow_synchronised
          [of "\<lparr>currentTime = 11, paused = True\<rparr>" "\<lparr>currentTime = 12.5, paused = False\<rparr>" True]
        sync_keeps_glow_synchronised
          [of "\<lparr>currentTime = 3.1, paused = False\<rparr>" "\<lparr>currentTime = 3, paused = True\<rparr>" False]
  by simp




subsection \<open>Logo preloader\<close>

lemma fl_of_int: "0 \<le> n \<Longrightarrow> n < 2 ^ 53 \<Longrightarrow> fl (of_int n) = Some (of_int n)"
  using isDouble_of_nat_int [of n] by (simp add: isDouble_def)

lemma timeoutDelay_between:
  assumes "0 \<le> lo" and "of_int lo \<le> v" and "v \<le> of_int hi" and "hi < 2 ^ 31"
  shows "lo \<le> timeoutDelay (Some v) \<and> timeoutDelay (Some v) \<le> hi"
proof -
  have "(0::real) \<le> of_int lo" using assms(1) by simp
  then have v0: "0 \<le> v" using assms(2) by linarith
  have t: "trunc v = \<lfloor>v\<rfloor>" using v0 by (simp add: trunc_def)
  have lo: "lo \<le> \<lfloor>v\<rfloor>" using assms(2) by (simp add: le_floor_iff)
  have "v < of_int hi + 1" using assms(3) by linarith
  then have hi: "\<lfloor>v\<rfloor> \<le> hi" by (simp only: floor_le_iff)
  have f0: "0 \<le> \<lfloor>v\<rfloor>" using lo assms(1) by linarith
  have "hi < 2147483648" using assms(4) by simp
  then have f31: "\<lfloor>v\<rfloor> < 2147483648" using hi by linarith
  then have "\<lfloor>v\<rfloor> < 4294967296" by simp
  then have m: "\<lfloor>v\<rfloor> mod 4294967296 = \<lfloor>v\<rfloor>" using f0 by simp
  have "(of_int hi :: real) < of_int 2147483648"
    using \<open>hi < 2147483648\<close> by (simp only: of_int_less_iff)
  then have n: "\<not> 2147483648 \<le> v" using assms(3) by simp
  have "toInt32 v = \<lfloor>v\<rfloor>"
    by (simp add: toInt32_def Let_def t m n)
  then show ?thesis using lo hi f0 by (simp add: timeoutDelay_def)
qed

lemma delayArg_between:
  assumes "1 \<le> dur * 1000" and "dur * 1000 \<le> 2147482897" and "0 \<le> c" and "c \<le> 750"
  shows "\<exists>v. delayArg dur (of_int c) = Some v
             \<and> of_int (\<lfloor>dur * 1000\<rfloor> + c) \<le> v \<and> v \<le> of_int (\<lceil>dur * 1000\<rceil> + c)"
proof -
  define x where "x = dur * 1000"
  have f0: "0 \<le> \<lfloor>x\<rfloor>" using assms(1) by (simp add: x_def)
  have "x \<le> of_int 2147482897" using assms(2) by (simp add: x_def)
  then have cb: "\<lceil>x\<rceil> \<le> 2147482897" by (simp only: ceiling_le_iff)
  have "(2147482897 :: int) < 2 ^ 53" by simp
  then have c53: "\<lceil>x\<rceil> < 2 ^ 53" using cb by linarith
  have "of_int \<lfloor>x\<rfloor> \<le> x" "x \<le> of_int \<lceil>x\<rceil>" by simp_all
  from fl_between_ints [OF f0 this c53]
  obtain a where a: "fl x = Some a" "of_int \<lfloor>x\<rfloor> \<le> a" "a \<le> of_int \<lceil>x\<rceil>" by blast
  have l0: "0 \<le> \<lfloor>x\<rfloor> + c" using f0 assms(3) by simp
  have l1: "of_int (\<lfloor>x\<rfloor> + c) \<le> a + of_int c" using a(2) by simp
  have l2: "a + of_int c \<le> of_int (\<lceil>x\<rceil> + c)" using a(3) by simp
  have "(2147482897 + 750 :: int) < 2 ^ 53" by simp
  then have l3: "\<lceil>x\<rceil> + c < 2 ^ 53" using cb assms(4) by linarith
  from fl_between_ints [OF l0 l1 l2 l3]
  obtain v where v: "fl (a + of_int c) = Some v" "of_int (\<lfloor>x\<rfloor> + c) \<le> v"
    "v \<le> of_int (\<lceil>x\<rceil> + c)" by blast
  have "delayArg dur (of_int c) = Some v"
    using a(1) v(1) by (simp add: delayArg_def jsMul_def jsAdd_def x_def)
  then show ?thesis using v(2,3) unfolding x_def by blast
qed

lemma timeoutDelay_50: "timeoutDelay (Some 50) = 50"
  by (simp add: timeoutDelay_def toInt32_def trunc_def)

lemma committed_distinct3:
  "delayMs a \<noteq> delayMs b \<Longrightarrow> delayMs b \<noteq> delayMs c \<Longrightarrow>
   committed [a, b, c] = [setsPhase a, setsPhase b, setsPhase c]"
  by simp

text \<open>
  C3 (as amended). Outside the static renderer, for a duration from 0.001 s to
  2147482.897 s and as long as the duration does not change, the timeouts of a mounted
  preloader take the phase it displays through exactly init, loading, logoOut, done; they
  run at 50 ms and, to the millisecond, at duration * 1000 + 50 ms and
  duration * 1000 + 750 ms after the mount, in this order; the phase never moves backward;
  and in the phase done the preloader renders nothing, while in every other phase it
  renders its element.
\<close>

theorem preloader_phase_sequence:
  assumes "\<not> isStatic" and "1 \<le> dur * 1000" and "dur * 1000 \<le> 2147482897"
  shows "displayedPhases isStatic dur = [Init, Loading, LogoOut, Done]
         \<and> (\<exists>d1 d2. phaseTimes isStatic dur = [50, d1, d2]
                \<and> \<lfloor>dur * 1000\<rfloor> + 50 \<le> d1 \<and> d1 \<le> \<lceil>dur * 1000\<rceil> + 50
                \<and> \<lfloor>dur * 1000\<rfloor> + 750 \<le> d2 \<and> d2 \<le> \<lceil>dur * 1000\<rceil> + 750
                \<and> 50 < d1 \<and> d1 < d2)
         \<and> neverBackward (displayedPhases isStatic dur)
         \<and> renderPreloader (last (displayedPhases isStatic dur)) = None
         \<and> (renderPreloader ph = None) = (ph = Done)"
proof -
  from assms(1) have s: "isStatic = False" by simp
  define lo where "lo = \<lfloor>dur * 1000\<rfloor>"
  define hi where "hi = \<lceil>dur * 1000\<rceil>"
  have lo1: "1 \<le> lo" using assms(2) by (simp add: lo_def le_floor_iff)
  have "dur * 1000 \<le> of_int 2147482897" using assms(3) by simp
  then have hib: "hi \<le> 2147482897" unfolding hi_def by (simp only: ceiling_le_iff)
  have "dur * 1000 \<le> of_int (\<lfloor>dur * 1000\<rfloor> + 1)" by simp
  then have lohi: "hi \<le> lo + 1" unfolding lo_def hi_def by (simp only: ceiling_le_iff)
  from delayArg_between [OF assms(2,3), of 50]
  obtain v1 where v1: "delayArg dur 50 = Some v1" "of_int (lo + 50) \<le> v1" "v1 \<le> of_int (hi + 50)"
    unfolding lo_def hi_def by auto
  from delayArg_between [OF assms(2,3), of 750]
  obtain v2 where v2: "delayArg dur 750 = Some v2" "of_int (lo + 750) \<le> v2" "v2 \<le> of_int (hi + 750)"
    unfolding lo_def hi_def by auto
  define d1 where "d1 = timeoutDelay (Some v1)"
  define d2 where "d2 = timeoutDelay (Some v2)"
  have b1: "lo + 50 \<le> d1 \<and> d1 \<le> hi + 50"
    unfolding d1_def using lo1 hib by (intro timeoutDelay_between v1) simp_all
  have b2: "lo + 750 \<le> d2 \<and> d2 \<le> hi + 750"
    unfolding d2_def using lo1 hib by (intro timeoutDelay_between v2) simp_all
  have o1: "50 < d1" using b1 lo1 by linarith
  have o2: "d1 < d2" using b1 b2 lohi by linarith
  have ts: "preloaderTimers False dur =
      [\<lparr>delayMs = 50, setsPhase = Loading\<rparr>, \<lparr>delayMs = d1, setsPhase = LogoOut\<rparr>,
       \<lparr>delayMs = d2, setsPhase = Done\<rparr>]"
    by (simp add: preloaderTimers_def timeoutDelay_50 v1 v2 d1_def d2_def)
  have "sorted (map delayMs (preloaderTimers False dur))"
    using o1 o2 by (simp add: ts)
  then have "firingOrder (preloaderTimers False dur) = preloaderTimers False dur"
    unfolding firingOrder_def by (rule sort_key_id_if_sorted)
  then have f: "firingOrder (preloaderTimers False dur) =
      [\<lparr>delayMs = 50, setsPhase = Loading\<rparr>, \<lparr>delayMs = d1, setsPhase = LogoOut\<rparr>,
       \<lparr>delayMs = d2, setsPhase = Done\<rparr>]"
    by (simp only: ts)
  have t: "displayedPhases isStatic dur = [Init, Loading, LogoOut, Done]"
    unfolding s displayedPhases_def f using o1 o2 by simp
  have m: "phaseTimes isStatic dur = [50, d1, d2]"
    unfolding s phaseTimes_def f by simp
  have n: "neverBackward (displayedPhases isStatic dur)"
    unfolding t by (simp add: neverBackward_def)
  have r: "renderPreloader (last (displayedPhases isStatic dur)) = None"
    unfolding t by (simp add: renderPreloader_def)
  have e: "(renderPreloader ph = None) = (ph = Done)"
    by (simp add: renderPreloader_def)
  have "\<exists>d1 d2. phaseTimes isStatic dur = [50, d1, d2]
                \<and> \<lfloor>dur * 1000\<rfloor> + 50 \<le> d1 \<and> d1 \<le> \<lceil>dur * 1000\<rceil> + 50
                \<and> \<lfloor>dur * 1000\<rfloor> + 750 \<le> d2 \<and> d2 \<le> \<lceil>dur * 1000\<rceil> + 750
                \<and> 50 < d1 \<and> d1 < d2"
    using m b1 b2 o1 o2 unfolding lo_def hi_def by blast
  with t n r e show ?thesis by blast
qed

lemma delayArg_2: "delayArg 2 50 = Some 2050" "delayArg 2 750 = Some 2750"
  using fl_of_int [of 2000] fl_of_int [of 2050] fl_of_int [of 2750]
  by (simp_all add: delayArg_def jsMul_def jsAdd_def)

lemma timeoutDelay_small:
  "timeoutDelay (Some 2050) = 2050" "timeoutDelay (Some 2750) = 2750"
  "timeoutDelay (Some 3050) = 3050" "timeoutDelay (Some 3750) = 3750"
  "timeoutDelay (Some 750) = 750"
  by (simp_all add: timeoutDelay_def toInt32_def trunc_def)

theorem preloader_phase_sequence_witness:
  "displayedPhases False 2 = [Init, Loading, LogoOut, Done]
   \<and> phaseTimes False 2 = [50, 2050, 2750]
   \<and> renderPreloader Done = None"
proof -
  have f: "firingOrder (preloaderTimers False 2) = preloaderTimers False 2"
    by (simp add: firingOrder_def preloaderTimers_def delayArg_2 timeoutDelay_50 timeoutDelay_small)
  have m: "phaseTimes False 2 = [50, 2050, 2750]"
    unfolding phaseTimes_def f
    by (simp add: preloaderTimers_def delayArg_2 timeoutDelay_50 timeoutDelay_small)
  show ?thesis
    using preloader_phase_sequence [of False 2 Done] m by simp
qed

lemma delayArg_negative: "delayArg (- 1) 50 = Some (- 950)" "delayArg (- 1) 750 = Some (- 250)"
  using fl_eval [of 9 "- 1000"] fl_eval [of 9 "- 950"] fl_eval [of 7 "- 250"]
  by (simp_all add: delayArg_def jsMul_def jsAdd_def roundHalfEven_def Let_def)

lemma delayArg_zero: "delayArg 0 50 = Some 50" "delayArg 0 750 = Some 750"
  using fl_of_int [of 50] fl_of_int [of 750]
  by (simp_all add: delayArg_def jsMul_def jsAdd_def fl_def)

lemma delayArg_large:
  "delayArg 3000000 50 = Some 3000000050" "delayArg 3000000 750 = Some 3000000750"
  using fl_of_int [of 3000000000] fl_of_int [of 3000000050] fl_of_int [of 3000000750]
  by (simp_all add: delayArg_def jsMul_def jsAdd_def)

lemma delayArg_3: "delayArg 3 50 = Some 3050" "delayArg 3 750 = Some 3750"
  using fl_of_int [of 3000] fl_of_int [of 3050] fl_of_int [of 3750]
  by (simp_all add: delayArg_def jsMul_def jsAdd_def)

lemma timeoutDelay_wrapped:
  "timeoutDelay (Some (- 950)) = 0" "timeoutDelay (Some (- 250)) = 0"
  "timeoutDelay (Some 3000000050) = 0" "timeoutDelay (Some 3000000750) = 0"
  by (simp_all add: timeoutDelay_def toInt32_def trunc_def)

text \<open>
  C3 as stated fails in five ways. In the static renderer the effect returns before it
  sets any timeout and the phase stays init. With a negative duration the timeouts of
  logoOut and done run before the one of loading: the phase displayed goes from init to
  done and then back to loading. With the duration 0 the timeouts of loading and logoOut
  are due at the same millisecond, and loading is never displayed. With a duration of
  3000000 s the delays pass \<open>2^31\<close> ms, the browser takes them as negative, and the
  order is that of a negative duration. And when the duration changes from 2 to 3 at
  2100 ms, the effect runs again and the phase moves back from logoOut to loading.
\<close>

theorem preloader_phase_counterexample:
  "displayedPhases True 2 = [Init]
   \<and> displayedPhases False (- 1) = [Init, Done, Loading]
   \<and> \<not> neverBackward (displayedPhases False (- 1))
   \<and> displayedPhases False 0 = [Init, LogoOut, Done]
   \<and> displayedPhases False 3000000 = [Init, Done, Loading]
   \<and> displayedAfterChange 2 2100 3 = [Init, Loading, LogoOut, Loading, LogoOut, Done]
   \<and> \<not> neverBackward (displayedAfterChange 2 2100 3)"
proof -
  have a: "displayedPhases True 2 = [Init]"
    by (simp add: displayedPhases_def firingOrder_def preloaderTimers_def)
  have b: "displayedPhases False (- 1) = [Init, Done, Loading]"
    by (simp add: displayedPhases_def firingOrder_def preloaderTimers_def delayArg_negative
        timeoutDelay_50 timeoutDelay_wrapped)
  have c: "displayedPhases False 0 = [Init, LogoOut, Done]"
    by (simp add: displayedPhases_def firingOrder_def preloaderTimers_def delayArg_zero
        timeoutDelay_50 timeoutDelay_small)
  have d: "displayedPhases False 3000000 = [Init, Done, Loading]"
    by (simp add: displayedPhases_def firingOrder_def preloaderTimers_def delayArg_large
        timeoutDelay_50 timeoutDelay_wrapped)
  have e: "displayedAfterChange 2 2100 3 = [Init, Loading, LogoOut, Loading, LogoOut, Done]"
    by (simp add: displayedAfterChange_def firingOrder_def preloaderTimers_def delayArg_2
        delayArg_3 timeoutDelay_50 timeoutDelay_small)
  show ?thesis
    unfolding a b c d e by (simp add: neverBackward_def)
qed

subsection \<open>Shared state\<close>

lemma loadYouTubeAPI_loadedOnce: "loadedOnce w \<Longrightarrow> loadedOnce (loadYouTubeAPI w)"
  by (auto simp: loadedOnce_def loadYouTubeAPI_def)














end
